theory Spec2Isabelle
  imports Main "HOL-Library.Word"
begin

section \<open>The Zillopoly game ledger (batch variant)\<close>

text \<open>
  A shallow embedding of the Solidity contract \<open>Zillopoly\<close> in its batch variant
  (\<open>startGame()\<close> creates ten empty games, \<open>initializeGame\<close> fills one in).
  Every external function is a HOL function from the storage before the call to either an
  error (a failed \<open>require\<close>, a modifier that rejects, a checked-arithmetic panic) or the
  returned value together with the storage after the call. A transaction that fails
  reverts: \<open>call\<close> below keeps the storage of before.

  The \<open>nonReentrant\<close> modifier has no counterpart: the token of the model never calls
  back into the contract, so no function is entered while another one runs.

  Unsigned 256-bit quantities are natural numbers; the only arithmetic that could leave the
  range, \<open>nextGameId++\<close>, carries Solidity 0.8's overflow check explicitly.
\<close>

subsection \<open>Data\<close>

type_synonym address = "160 word"
type_synonym bytes32 = "256 word"

definition max_uint256 :: nat where
  "max_uint256 = 2 ^ 256 - 1"

datatype GameStage = NotStarted | Initialized | GuessSubmitted | Settled

record Listing =
  gameId :: nat
  displayedPrice :: nat
  actualPrice :: nat
  higherOrLower :: bool
  listingId :: bytes32
  player :: address
  timestamp :: nat
  stage :: GameStage
  won :: bool
  payout :: nat

text \<open>
  Modelled from the spec: the token contract behind \<open>hoboToken\<close>. \<open>Hobo\<close> inherits its
  \<open>transfer\<close>, \<open>transferFrom\<close> and \<open>balanceOf\<close> from an imported ERC-20 base that is not
  part of the repository. The spec describes it as a balance ledger with
  \<open>transferFrom(from, to, amount) \<rightarrow> success\<close>, \<open>transfer(to, amount) \<rightarrow> success\<close>,
  \<open>balanceOf(account) \<rightarrow> amount\<close>. A call that does not succeed is \<open>None\<close>; the contract
  wraps every call in \<open>require\<close>, so whether the token returns false or reverts makes no
  difference to the caller.
\<close>

record Token =
  balances :: "address \<Rightarrow> nat"
  allowances :: "address \<Rightarrow> address \<Rightarrow> nat"

definition balanceOf :: "Token \<Rightarrow> address \<Rightarrow> nat" where
  "balanceOf t a = balances t a"

definition move_tokens :: "Token \<Rightarrow> address \<Rightarrow> address \<Rightarrow> nat \<Rightarrow> Token" where
  "move_tokens t src dst amount =
     (let b1 = (balances t)(src := balances t src - amount);
          b2 = b1(dst := b1 dst + amount)
      in t\<lparr>balances := b2\<rparr>)"

definition transfer :: "Token \<Rightarrow> address \<Rightarrow> address \<Rightarrow> nat \<Rightarrow> Token option" where
  "transfer t sender dst amount =
     (if balances t sender < amount then None
      else Some (move_tokens t sender dst amount))"

definition transferFrom :: "Token \<Rightarrow> address \<Rightarrow> address \<Rightarrow> address \<Rightarrow> nat \<Rightarrow> Token option" where
  "transferFrom t spender src dst amount =
     (if allowances t src spender < amount then None
      else if balances t src < amount then None
      else Some (move_tokens
                   (t\<lparr>allowances := (allowances t)
                        (src := (allowances t src)(spender := allowances t src spender - amount))\<rparr>)
                   src dst amount))"

text \<open>
  The contract's storage. \<open>owner\<close> is the \<open>_owner\<close> slot of \<open>Ownable\<close>, \<open>this\<close> the
  contract's own address, \<open>hoboToken\<close> the state of the token contract the constructor was
  given. A Solidity mapping is total: an unset key reads as the zero value of its type.
\<close>

record Zillopoly =
  owner :: address
  this :: address
  hoboToken :: Token
  nextGameId :: nat
  playerListings :: "address \<Rightarrow> Listing list"
  gameById :: "nat \<Rightarrow> Listing"
  allGames :: "Listing list"

definition GAME_COST :: nat where
  "GAME_COST = 1000 * 10 ^ 18"

definition BATCH_SIZE :: nat where
  "BATCH_SIZE = 10"

definition BATCH_COST :: nat where
  "BATCH_COST = GAME_COST * BATCH_SIZE"

datatype error =
    TransferFailed
  | InvalidGameID
  | InvalidListingID
  | DisplayedPriceZero
  | GameAlreadyInitialized
  | NotYourGame
  | GameNotInGuessStage
  | ActualPriceZero
  | GameNotReadyForSettlement
  | PayoutFailed
  | InsufficientBalance
  | OwnableUnauthorizedAccount
  | OwnableInvalidOwner
  | ArithmeticOverflow

definition zeroListing :: Listing where
  "zeroListing = \<lparr>gameId = 0, displayedPrice = 0, actualPrice = 0, higherOrLower = False,
     listingId = 0, player = 0, timestamp = 0, stage = NotStarted, won = False, payout = 0\<rparr>"

text \<open>The constructor: \<open>Ownable(msg.sender)\<close>, the token, \<open>nextGameId = 1\<close>, nothing stored.\<close>

definition constructor :: "address \<Rightarrow> address \<Rightarrow> Token \<Rightarrow> Zillopoly" where
  "constructor sender self tok =
     \<lparr>owner = sender, this = self, hoboToken = tok, nextGameId = 1,
      playerListings = (\<lambda>_. []), gameById = (\<lambda>_. zeroListing), allGames = []\<rparr>"

subsection \<open>\<open>_updateListingInArrays\<close>\<close>

text \<open>
  Each of the two loops of \<open>_updateListingInArrays\<close> scans an array from index 0, overwrites
  the first element whose \<open>gameId\<close> matches and breaks.
\<close>

fun updateFirst :: "nat \<Rightarrow> Listing \<Rightarrow> Listing list \<Rightarrow> Listing list" where
  "updateFirst gid updatedGame [] = []"
| "updateFirst gid updatedGame (x # xs) =
     (if gameId x = gid then updatedGame # xs else x # updateFirst gid updatedGame xs)"

text \<open>
  \<open>updatedGame\<close> is a storage pointer into \<open>gameById\<close>; the model passes the key it points
  at and reads the record through it.
\<close>

definition updateListingInArrays :: "Zillopoly \<Rightarrow> nat \<Rightarrow> nat \<Rightarrow> Zillopoly" where
  "updateListingInArrays s gid ptr =
     (let updatedGame = gameById s ptr;
          p = player updatedGame;
          s1 = s\<lparr>playerListings := (playerListings s)
                  (p := updateFirst gid updatedGame (playerListings s p))\<rparr>
      in s1\<lparr>allGames := updateFirst gid updatedGame (allGames s1)\<rparr>)"

subsection \<open>\<open>startGame\<close>\<close>

definition newListing :: "nat \<Rightarrow> address \<Rightarrow> nat \<Rightarrow> Listing" where
  "newListing gid sender now =
     \<lparr>gameId = gid, displayedPrice = 0, actualPrice = 0, higherOrLower = False,
      listingId = 0, player = sender, timestamp = now, stage = NotStarted,
      won = False, payout = 0\<rparr>"

text \<open>One pass through the body of the \<open>for\<close> loop, ending with the checked \<open>nextGameId++\<close>.\<close>

definition pushGame :: "Zillopoly \<Rightarrow> address \<Rightarrow> nat \<Rightarrow> error + Zillopoly" where
  "pushGame s sender now =
     (let l = newListing (nextGameId s) sender now;
          s1 = s\<lparr>playerListings := (playerListings s)(sender := playerListings s sender @ [l])\<rparr>;
          s2 = s1\<lparr>gameById := (gameById s1)(nextGameId s1 := l)\<rparr>;
          s3 = s2\<lparr>allGames := allGames s2 @ [l]\<rparr>
      in if nextGameId s3 \<ge> max_uint256 then Inl ArithmeticOverflow
         else Inr (s3\<lparr>nextGameId := nextGameId s3 + 1\<rparr>))"

function startGame_loop :: "nat \<Rightarrow> Zillopoly \<Rightarrow> address \<Rightarrow> nat \<Rightarrow> error + Zillopoly" where
  "startGame_loop i s sender now =
     (if i < BATCH_SIZE then
        (case pushGame s sender now of
           Inl e \<Rightarrow> Inl e
         | Inr s' \<Rightarrow> startGame_loop (i + 1) s' sender now)
      else Inr s)"
  by pat_completeness auto
termination
  by (relation "measure (\<lambda>(i, s, sender, now). BATCH_SIZE - i)") auto

declare startGame_loop.simps [simp del]

definition startGame :: "Zillopoly \<Rightarrow> address \<Rightarrow> nat \<Rightarrow> error + ((nat \<times> nat) \<times> Zillopoly)" where
  "startGame s sender now =
     (case transferFrom (hoboToken s) (this s) sender (this s) BATCH_COST of
        None \<Rightarrow> Inl TransferFailed
      | Some tok \<Rightarrow>
          (let s1 = s\<lparr>hoboToken := tok\<rparr>;
               startGameId = nextGameId s1
           in case startGame_loop 0 s1 sender now of
                Inl e \<Rightarrow> Inl e
              | Inr s2 \<Rightarrow> Inr ((startGameId, nextGameId s2 - 1), s2)))"

subsection \<open>\<open>initializeGame\<close>, \<open>makeGuess\<close>, \<open>settleBet\<close>\<close>

definition validGameId :: "Zillopoly \<Rightarrow> nat \<Rightarrow> bool" where
  "validGameId s gid \<longleftrightarrow> gid > 0 \<and> gid < nextGameId s"

definition setGame :: "Zillopoly \<Rightarrow> nat \<Rightarrow> Listing \<Rightarrow> Zillopoly" where
  "setGame s gid g = s\<lparr>gameById := (gameById s)(gid := g)\<rparr>"

definition initializeGame :: "Zillopoly \<Rightarrow> address \<Rightarrow> nat \<Rightarrow> bytes32 \<Rightarrow> nat \<Rightarrow> error + Zillopoly" where
  "initializeGame s sender gid lid shownPrice =
     (if sender \<noteq> owner s then Inl OwnableUnauthorizedAccount
      else if \<not> validGameId s gid then Inl InvalidGameID
      else if \<not> lid \<noteq> 0 then Inl InvalidListingID
      else if \<not> shownPrice > 0 then Inl DisplayedPriceZero
      else if \<not> stage (gameById s gid) = NotStarted then Inl GameAlreadyInitialized
      else
        (let s1 = setGame s gid ((gameById s gid)\<lparr>listingId := lid\<rparr>);
             s2 = setGame s1 gid ((gameById s1 gid)\<lparr>displayedPrice := shownPrice\<rparr>);
             s3 = setGame s2 gid ((gameById s2 gid)\<lparr>stage := Initialized\<rparr>)
         in Inr (updateListingInArrays s3 gid gid)))"

definition makeGuess :: "Zillopoly \<Rightarrow> address \<Rightarrow> nat \<Rightarrow> bool \<Rightarrow> error + Zillopoly" where
  "makeGuess s sender gid isHigher =
     (if \<not> validGameId s gid then Inl InvalidGameID
      else if \<not> player (gameById s gid) = sender then Inl NotYourGame
      else if \<not> stage (gameById s gid) = Initialized then Inl GameNotInGuessStage
      else
        (let s1 = setGame s gid ((gameById s gid)\<lparr>higherOrLower := isHigher\<rparr>);
             s2 = setGame s1 gid ((gameById s1 gid)\<lparr>stage := GuessSubmitted\<rparr>)
         in Inr (updateListingInArrays s2 gid gid)))"

text \<open>The three-way \<open>if\<close>/\<open>else if\<close> chain of \<open>settleBet\<close> that decides \<open>playerWon\<close>.\<close>

definition playerWon :: "Listing \<Rightarrow> nat \<Rightarrow> bool" where
  "playerWon game actual =
     (if higherOrLower game \<and> actual > displayedPrice game then True
      else if \<not> higherOrLower game \<and> actual < displayedPrice game then True
      else if actual = displayedPrice game then True
      else False)"

definition settleBet :: "Zillopoly \<Rightarrow> address \<Rightarrow> nat \<Rightarrow> nat \<Rightarrow> error + Zillopoly" where
  "settleBet s sender gid actual =
     (if sender \<noteq> owner s then Inl OwnableUnauthorizedAccount
      else if \<not> validGameId s gid then Inl InvalidGameID
      else if \<not> actual > 0 then Inl ActualPriceZero
      else if \<not> stage (gameById s gid) = GuessSubmitted then Inl GameNotReadyForSettlement
      else
        (let s1 = setGame s gid ((gameById s gid)\<lparr>actualPrice := actual\<rparr>);
             w = playerWon (gameById s1 gid) actual;
             s2 = setGame s1 gid ((gameById s1 gid)\<lparr>won := w\<rparr>);
             s3 = setGame s2 gid ((gameById s2 gid)\<lparr>stage := Settled\<rparr>)
         in if w then
              (let s4 = setGame s3 gid ((gameById s3 gid)\<lparr>payout := GAME_COST * 2\<rparr>)
               in case transfer (hoboToken s4) (this s4) (player (gameById s4 gid))
                         (payout (gameById s4 gid)) of
                    None \<Rightarrow> Inl PayoutFailed
                  | Some tok \<Rightarrow> Inr (updateListingInArrays (s4\<lparr>hoboToken := tok\<rparr>) gid gid))
            else
              (let s4 = setGame s3 gid ((gameById s3 gid)\<lparr>payout := 0\<rparr>)
               in Inr (updateListingInArrays s4 gid gid))))"

subsection \<open>Funds and ownership\<close>

definition withdrawFunds :: "Zillopoly \<Rightarrow> address \<Rightarrow> nat \<Rightarrow> error + Zillopoly" where
  "withdrawFunds s sender amount =
     (if sender \<noteq> owner s then Inl OwnableUnauthorizedAccount
      else if \<not> amount \<le> balanceOf (hoboToken s) (this s) then Inl InsufficientBalance
      else case transfer (hoboToken s) (this s) sender amount of
             None \<Rightarrow> Inl TransferFailed
           | Some tok \<Rightarrow> Inr (s\<lparr>hoboToken := tok\<rparr>))"

text \<open>
  The two state-changing functions the contract inherits from \<open>Ownable\<close>: handing the
  owner role to a non-zero address, and giving it up.
\<close>

definition transferOwnership :: "Zillopoly \<Rightarrow> address \<Rightarrow> address \<Rightarrow> error + Zillopoly" where
  "transferOwnership s sender newOwner =
     (if sender \<noteq> owner s then Inl OwnableUnauthorizedAccount
      else if newOwner = 0 then Inl OwnableInvalidOwner
      else Inr (s\<lparr>owner := newOwner\<rparr>))"

definition renounceOwnership :: "Zillopoly \<Rightarrow> address \<Rightarrow> error + Zillopoly" where
  "renounceOwnership s sender =
     (if sender \<noteq> owner s then Inl OwnableUnauthorizedAccount
      else Inr (s\<lparr>owner := 0\<rparr>))"

subsection \<open>Queries\<close>


definition getGame :: "Zillopoly \<Rightarrow> nat \<Rightarrow> error + Listing" where
  "getGame s gid = (if \<not> validGameId s gid then Inl InvalidGameID else Inr (gameById s gid))"

definition getTotalGames :: "Zillopoly \<Rightarrow> nat" where
  "getTotalGames s = length (allGames s)"



definition getContractBalance :: "Zillopoly \<Rightarrow> nat" where
  "getContractBalance s = balanceOf (hoboToken s) (this s)"

subsection \<open>Transactions\<close>

text \<open>
  A transaction names its sender, the block's timestamp and the function called. When the
  function fails the transaction reverts and the storage is the one of before.
\<close>

datatype op =
    StartGame
  | InitializeGame nat bytes32 nat
  | MakeGuess nat bool
  | SettleBet nat nat
  | WithdrawFunds nat
  | TransferOwnership address
  | RenounceOwnership

fun run :: "Zillopoly \<Rightarrow> address \<Rightarrow> nat \<Rightarrow> op \<Rightarrow> error + Zillopoly" where
  "run s sender now StartGame = map_sum id snd (startGame s sender now)"
| "run s sender now (InitializeGame gid lid shownPrice) = initializeGame s sender gid lid shownPrice"
| "run s sender now (MakeGuess gid isHigher) = makeGuess s sender gid isHigher"
| "run s sender now (SettleBet gid actual) = settleBet s sender gid actual"
| "run s sender now (WithdrawFunds amount) = withdrawFunds s sender amount"
| "run s sender now (TransferOwnership newOwner) = transferOwnership s sender newOwner"
| "run s sender now RenounceOwnership = renounceOwnership s sender"

definition call :: "Zillopoly \<Rightarrow> address \<Rightarrow> nat \<Rightarrow> op \<Rightarrow> Zillopoly" where
  "call s sender now f = (case run s sender now f of Inl e \<Rightarrow> s | Inr s' \<Rightarrow> s')"

text \<open>
  The token is a contract of its own, so its state also moves without the game contract
  taking part (other holders transfer and approve, the token's owner mints and burns).
  An event is therefore either a transaction on the game contract or any change of the
  token state. The storages the contract can be in are the one the constructor leaves and
  whatever a sequence of events makes of it.
\<close>

datatype event = Transaction address nat op | TokenMoved Token

fun step :: "Zillopoly \<Rightarrow> event \<Rightarrow> Zillopoly" where
  "step s (Transaction sender now f) = call s sender now f"
| "step s (TokenMoved tok) = s\<lparr>hoboToken := tok\<rparr>"

definition steps :: "Zillopoly \<Rightarrow> event list \<Rightarrow> Zillopoly" where
  "steps s evs = foldl step s evs"

inductive reachable :: "Zillopoly \<Rightarrow> bool" where
  deployed: "reachable (constructor sender self tok)"
| stepped: "reachable s \<Longrightarrow> reachable (step s ev)"


section \<open>Vocabulary for the proofs\<close>

text \<open>
  The three mutating functions all end the same way: the record at one key of \<open>gameById\<close>
  has been rewritten in place and \<open>_updateListingInArrays\<close> copies it into the two arrays.
  \<open>commit\<close> names that storage.
\<close>

definition commit :: "Zillopoly \<Rightarrow> nat \<Rightarrow> Listing \<Rightarrow> Zillopoly" where
  "commit s gid g = updateListingInArrays (setGame s gid g) gid gid"

text \<open>
  The storage after \<open>k\<close> passes through the loop of \<open>startGame\<close>, in closed form.
\<close>

definition withBatch :: "nat \<Rightarrow> Zillopoly \<Rightarrow> address \<Rightarrow> nat \<Rightarrow> Zillopoly" where
  "withBatch k s sender now =
     (let n = nextGameId s; new = map (\<lambda>g. newListing g sender now) [n..<n + k]
      in s\<lparr>playerListings := (playerListings s)(sender := playerListings s sender @ new),
           gameById := (\<lambda>g. if n \<le> g \<and> g < n + k then newListing g sender now else gameById s g),
           allGames := allGames s @ new,
           nextGameId := n + k\<rparr>)"

text \<open>
  The record \<open>settleBet\<close> leaves behind: the price, the outcome, the final stage and the
  payout, written in this order by the source.
\<close>

definition settled :: "Listing \<Rightarrow> nat \<Rightarrow> Listing" where
  "settled g actual =
     g\<lparr>actualPrice := actual, won := playerWon g actual, stage := Settled,
       payout := (if playerWon g actual then GAME_COST * 2 else 0)\<rparr>"

text \<open>
  The three ways a stored game changes, one per mutating function.
\<close>

inductive advances :: "Listing \<Rightarrow> Listing \<Rightarrow> bool" where
  listed: "stage g = NotStarted \<Longrightarrow> lid \<noteq> 0 \<Longrightarrow> shownPrice > 0 \<Longrightarrow>
     advances g (g\<lparr>listingId := lid, displayedPrice := shownPrice, stage := Initialized\<rparr>)"
| guessed: "stage g = Initialized \<Longrightarrow>
     advances g (g\<lparr>higherOrLower := h, stage := GuessSubmitted\<rparr>)"
| paid: "stage g = GuessSubmitted \<Longrightarrow> actual > 0 \<Longrightarrow> advances g (settled g actual)"

text \<open>
  The position of a stage in the declaration of the enum (Solidity's numeric value of it).
\<close>

fun stageIndex :: "GameStage \<Rightarrow> nat" where
  "stageIndex NotStarted = 0"
| "stageIndex Initialized = 1"
| "stageIndex GuessSubmitted = 2"
| "stageIndex Settled = 3"

text \<open>
  Three invariants of the storage. \<open>consistent\<close>: the flat array lists the games in id
  order, each player's array is the part of it that player owns, and a stored game carries
  its own key. \<open>unused\<close>: a key outside the issued range still reads as the zero record.
  \<open>gameOk\<close>: what holds of a single game once it has left a stage.
\<close>

definition consistent :: "Zillopoly \<Rightarrow> bool" where
  "consistent s \<longleftrightarrow>
     1 \<le> nextGameId s \<and>
     allGames s = map (gameById s) [1..<nextGameId s] \<and>
     (\<forall>p. playerListings s p = filter (\<lambda>g. player g = p) (allGames s)) \<and>
     (\<forall>gid. validGameId s gid \<longrightarrow> gameId (gameById s gid) = gid)"

definition unused :: "Zillopoly \<Rightarrow> bool" where
  "unused s \<longleftrightarrow> (\<forall>gid. \<not> validGameId s gid \<longrightarrow> gameById s gid = zeroListing)"

definition gameOk :: "Listing \<Rightarrow> bool" where
  "gameOk g \<longleftrightarrow>
     (stage g \<noteq> NotStarted \<longrightarrow> displayedPrice g > 0 \<and> listingId g \<noteq> 0) \<and>
     (stage g = Settled \<longrightarrow> actualPrice g > 0 \<and> won g = playerWon g (actualPrice g) \<and>
        payout g = (if won g then GAME_COST * 2 else 0))"

section \<open>The listing proxy\<close>

text \<open>
  The Express server \<open>api/src/index.js\<close>: \<open>fetchRandomListing\<close> and the handler of
  \<open>GET /api/random-listing\<close>. What the outside world supplies is an argument of the
  model: the upstream's answer (\<open>upstream\<close>) and the random draws (\<open>draw\<close>).

  The upstream's body is parsed JSON. \<open>'j\<close> is the type of its values other than \<open>null\<close>; a
  property read off a listing is a \<open>slot\<close>: absent (JavaScript reads \<open>undefined\<close>), \<open>null\<close>,
  or a value. An element of the \<open>props\<close> array is \<open>null\<close> or something properties can be read
  off (a primitive element is one with every property absent). The parsed body is \<open>null\<close>,
  or has no \<open>props\<close> to draw from (\<open>props\<close> absent, falsy, or without a \<open>length\<close>), or has
  the array, which may be empty.

  What JavaScript does with such values is a parameter (\<open>primitives\<close>): \<open>toString()\<close>,
  truthiness, \<open>toFixed(2)\<close> of the percentage, and the floating-point
  \<open>Math.round(actualPrice * (1 + adjustment))\<close>, whose first argument is the truthy price
  or \<open>None\<close> for the number 0 that \<open>price || 0\<close> puts in its place, and whose result is
  \<open>None\<close> when it is not a finite number (\<open>NaN\<close>, an infinity). \<open>'a\<close> is the type of the
  adjustment, the number \<open>getRandomPercentageAdjustment\<close> resolves to; that function catches
  its own errors and never throws.

  A \<open>json\<close> is a value in memory; \<open>toJSON\<close> is what \<open>res.json\<close> sends of it: a key whose
  value is \<open>undefined\<close> is left out and a number that is not finite is written \<open>null\<close>.
\<close>

datatype 'j json =
    Undefined | JNull | NotFinite | Raw 'j | JBool bool | JNum int | JStr string
  | JObj "(string \<times> 'j json) list"

datatype 'j slot = Absent | IsNull | Has 'j

record 'j property =
  zpid :: "'j slot"
  address :: "'j slot"
  price :: "'j slot"
  imgSrc :: "'j slot"
  bedrooms :: "'j slot"
  bathrooms :: "'j slot"
  livingArea :: "'j slot"
  homeType :: "'j slot"
  latitude :: "'j slot"
  longitude :: "'j slot"


















definition field :: "string \<Rightarrow> 'j json \<Rightarrow> 'j json option" where
  "field k v = (case v of JObj kvs \<Rightarrow> map_of kvs k | _ \<Rightarrow> None)"

definition failure :: "string \<Rightarrow> 'j json" where
  "failure msg = JObj [(''success'', JBool False), (''error'', JStr msg)]"

















section \<open>A game played through\<close>

text \<open>
  The scenario used to exercise the theorems on concrete storage: the operator deploys,
  Alice buys a batch, the operator lists game 3 at 500000, Alice guesses higher, the operator
  settles at 600000 (or at 400000, or after the contract's tokens are gone); game 4 is
  listed at 500000, guessed lower and settled at exactly 500000.
\<close>

definition alice :: address where "alice = 0xA11CE"
definition bob :: address where "bob = 0xB0B"
definition operator :: address where "operator = 0x0DD"
definition ledger :: address where "ledger = 0xC0DE"

definition tok0 :: Token where
  "tok0 = \<lparr>balances = (\<lambda>_. 0)(alice := 50000 * 10 ^ 18),
           allowances = (\<lambda>_ _. 0)(alice := (\<lambda>_. 0)(ledger := 10000 * 10 ^ 18))\<rparr>"

definition tok1 :: Token where
  "tok1 = \<lparr>balances = (\<lambda>_. 0)(alice := 40000 * 10 ^ 18, ledger := 10000 * 10 ^ 18),
           allowances = (\<lambda>_ _. 0)(alice := (\<lambda>_. 0)(ledger := 0))\<rparr>"

definition tokDrained :: Token where
  "tokDrained = \<lparr>balances = (\<lambda>_. 0), allowances = (\<lambda>_ _. 0)\<rparr>"

definition after0 :: Zillopoly where
  "after0 = constructor operator ledger tok0"
definition after1 :: Zillopoly where
  "after1 = step after0 (Transaction alice 1700000000 StartGame)"
definition after2 :: Zillopoly where
  "after2 = step after1 (Transaction operator 1700000100 (InitializeGame 3 0x2A 500000))"
definition after3 :: Zillopoly where
  "after3 = step after2 (Transaction alice 1700000200 (MakeGuess 3 True))"
definition after4 :: Zillopoly where
  "after4 = step after3 (Transaction operator 1700000300 (SettleBet 3 600000))"
definition lost4 :: Zillopoly where
  "lost4 = step after3 (Transaction operator 1700000300 (SettleBet 3 400000))"
definition drained :: Zillopoly where
  "drained = step after3 (TokenMoved tokDrained)"
definition tie2 :: Zillopoly where
  "tie2 = step after1 (Transaction operator 1700000100 (InitializeGame 4 0x2B 500000))"
definition tie3 :: Zillopoly where
  "tie3 = step tie2 (Transaction alice 1700000200 (MakeGuess 4 False))"
definition tie4 :: Zillopoly where
  "tie4 = step tie3 (Transaction operator 1700000300 (SettleBet 4 500000))"

definition listed3 :: Listing where
  "listed3 = (newListing 3 alice 1700000000)
     \<lparr>listingId := 0x2A, displayedPrice := 500000, stage := Initialized\<rparr>"

definition guessed3 :: Listing where
  "guessed3 = listed3\<lparr>higherOrLower := True, stage := GuessSubmitted\<rparr>"

section \<open>Lemmas\<close>

subsection \<open>The update loops keep the copies in step\<close>

lemma updateFirst_map:
  "distinct (map gameId xs) \<Longrightarrow>
   updateFirst gid g xs = map (\<lambda>x. if gameId x = gid then g else x) xs"
proof (induction xs)
  case Nil
  then show ?case by simp
next
  case (Cons x xs)
  have "gameId x = gid \<Longrightarrow> map (\<lambda>y. if gameId y = gid then g else y) xs = xs"
  proof (rule map_idI)
    fix y assume "gameId x = gid" "y \<in> set xs"
    with Cons.prems have "gameId x \<notin> set (map gameId xs)" "gameId y \<in> set (map gameId xs)"
      by simp_all
    with \<open>gameId x = gid\<close> have "gameId y \<noteq> gid" by metis
    then show "(if gameId y = gid then g else y) = y" by simp
  qed
  with Cons show ?case by simp
qed

lemma consistent_ids: "consistent s \<Longrightarrow> map gameId (allGames s) = [1..<nextGameId s]"
  by (auto simp: consistent_def validGameId_def intro!: map_idI)

lemma consistent_constructor: "consistent (constructor sender self tok)"
  by (simp add: consistent_def constructor_def validGameId_def)

lemma commit_fields [simp]:
  "owner (commit s gid g) = owner s"
  "this (commit s gid g) = this s"
  "hoboToken (commit s gid g) = hoboToken s"
  "nextGameId (commit s gid g) = nextGameId s"
  "gameById (commit s gid g) = (gameById s)(gid := g)"
  by (simp_all add: commit_def updateListingInArrays_def setGame_def Let_def)

lemma commit_allGames:
  assumes "consistent s" "validGameId s gid"
  shows "allGames (commit s gid g) = map ((gameById s)(gid := g)) [1..<nextGameId s]"
proof -
  have d: "distinct (map gameId (allGames s))"
    using consistent_ids [OF assms(1)] by simp
  have "allGames (commit s gid g) = updateFirst gid g (allGames s)"
    by (simp add: commit_def updateListingInArrays_def setGame_def Let_def)
  also have "\<dots> = map (\<lambda>x. if gameId x = gid then g else x) (allGames s)"
    by (rule updateFirst_map [OF d])
  also have "\<dots> = map ((gameById s)(gid := g)) [1..<nextGameId s]"
    using assms by (auto simp: consistent_def validGameId_def)
  finally show ?thesis .
qed

lemma commit_playerListings:
  assumes "consistent s" "validGameId s gid" "player g = player (gameById s gid)"
  shows "playerListings (commit s gid g) p = filter (\<lambda>x. player x = p) (allGames (commit s gid g))"
proof -
  let ?h = "\<lambda>x. if gameId x = gid then g else x"
  let ?P = "\<lambda>x. player x = p"
  have ids: "map gameId (allGames s) = [1..<nextGameId s]"
    by (rule consistent_ids [OF assms(1)])
  have d: "distinct (map gameId (allGames s))" using ids by simp
  have pl: "playerListings s q = filter (\<lambda>x. player x = q) (allGames s)" for q
    using assms(1) by (simp add: consistent_def)
  have same: "x \<in> set (allGames s) \<Longrightarrow> gameId x = gid \<Longrightarrow> x = gameById s gid" for x
    using assms(1,2) by (auto simp: consistent_def validGameId_def)
  have all: "allGames (commit s gid g) = map ?h (allGames s)"
    by (simp add: commit_def updateListingInArrays_def setGame_def Let_def updateFirst_map [OF d])
  have keep: "filter (?P \<circ> ?h) (allGames s) = filter ?P (allGames s)"
    by (rule filter_cong) (auto simp: assms(3) dest: same)
  have rhs: "filter ?P (allGames (commit s gid g)) = map ?h (filter ?P (allGames s))"
    by (simp add: all filter_map keep)
  have dp: "distinct (map gameId (filter ?P (allGames s)))"
    using d by (rule distinct_map_filter)
  show ?thesis
  proof (cases "p = player g")
    case True
    have "playerListings (commit s gid g) p = updateFirst gid g (filter ?P (allGames s))"
      using True by (simp add: commit_def updateListingInArrays_def setGame_def Let_def pl)
    then show ?thesis by (simp add: rhs updateFirst_map [OF dp])
  next
    case False
    have "playerListings (commit s gid g) p = filter ?P (allGames s)"
      using False by (simp add: commit_def updateListingInArrays_def setGame_def Let_def pl)
    moreover have "map ?h (filter ?P (allGames s)) = filter ?P (allGames s)"
      using False assms(3) by (intro map_idI) (auto dest: same)
    ultimately show ?thesis by (simp add: rhs)
  qed
qed

lemma consistent_commit:
  assumes "consistent s" "validGameId s gid" "player g = player (gameById s gid)" "gameId g = gid"
  shows "consistent (commit s gid g)"
  unfolding consistent_def
  using assms commit_allGames [OF assms(1,2), of g] commit_playerListings [OF assms(1,2,3)]
  by (auto simp: consistent_def validGameId_def)

subsection \<open>The batch loop in closed form\<close>

lemma pushGame_Inr:
  "pushGame s sender now = Inr s' \<longleftrightarrow>
     nextGameId s < max_uint256 \<and>
     s' = s\<lparr>playerListings := (playerListings s)
               (sender := playerListings s sender @ [newListing (nextGameId s) sender now]),
             gameById := (gameById s)(nextGameId s := newListing (nextGameId s) sender now),
             allGames := allGames s @ [newListing (nextGameId s) sender now],
             nextGameId := nextGameId s + 1\<rparr>"
  by (auto simp: pushGame_def Let_def)

lemma withBatch_0: "withBatch 0 s sender now = s"
  by (rule Zillopoly.equality) (auto simp: withBatch_def Let_def fun_eq_iff)

lemma withBatch_Suc:
  assumes "pushGame s sender now = Inr s1"
  shows "withBatch k s1 sender now = withBatch (Suc k) s sender now"
proof -
  let ?n = "nextGameId s"
  have s1: "s1 = s\<lparr>playerListings := (playerListings s)
               (sender := playerListings s sender @ [newListing ?n sender now]),
             gameById := (gameById s)(?n := newListing ?n sender now),
             allGames := allGames s @ [newListing ?n sender now],
             nextGameId := ?n + 1\<rparr>"
    using assms by (simp add: pushGame_Inr)
  have up: "[?n..<Suc (?n + k)] = ?n # [Suc ?n..<Suc (?n + k)]"
    by (simp add: upt_rec)
  have g: "(\<lambda>g. if Suc ?n \<le> g \<and> g < Suc (?n + k) then newListing g sender now
                else if g = ?n then newListing ?n sender now else gameById s g)
         = (\<lambda>g. if ?n \<le> g \<and> g < Suc (?n + k) then newListing g sender now else gameById s g)"
    by (rule ext) auto
  show ?thesis
    unfolding s1 withBatch_def Let_def
    by (rule Zillopoly.equality) (simp_all add: up g fun_upd_def fun_eq_iff del: upt_Suc)
qed

lemma startGame_loop_Inr:
  "startGame_loop i s sender now = Inr s' \<longleftrightarrow>
     (i < BATCH_SIZE \<longrightarrow> nextGameId s + (BATCH_SIZE - i) \<le> max_uint256) \<and>
     s' = withBatch (BATCH_SIZE - i) s sender now"
proof (induction i s sender now arbitrary: s' rule: startGame_loop.induct)
  case (1 i s sender now)
  show ?case
  proof (cases "i < BATCH_SIZE")
    case False
    then show ?thesis
      by (subst startGame_loop.simps) (auto simp: withBatch_0)
  next
    case True
    then have k: "BATCH_SIZE - i = Suc (BATCH_SIZE - (i + 1))" by simp
    show ?thesis
    proof (cases "pushGame s sender now")
      case (Inl e)
      then have "\<not> nextGameId s < max_uint256"
        using pushGame_Inr [of s sender now] by (auto simp: pushGame_def Let_def split: if_splits)
      with True Inl show ?thesis
        by (subst startGame_loop.simps) auto
    next
      case (Inr s1)
      then have n1: "nextGameId s1 = nextGameId s + 1" and lt: "nextGameId s < max_uint256"
        by (simp_all add: pushGame_Inr)
      have "startGame_loop i s sender now = startGame_loop (i + 1) s1 sender now"
        using True Inr by (subst startGame_loop.simps) simp
      also have "\<dots> = Inr s' \<longleftrightarrow>
          (i + 1 < BATCH_SIZE \<longrightarrow> nextGameId s1 + (BATCH_SIZE - (i + 1)) \<le> max_uint256) \<and>
          s' = withBatch (BATCH_SIZE - (i + 1)) s1 sender now"
        by (rule "1.IH" [OF True Inr])
      finally show ?thesis
        using True lt unfolding withBatch_Suc [OF Inr] k [symmetric] n1
        by auto
    qed
  qed
qed

lemma startGame_loop_Inl:
  "startGame_loop i s sender now = Inl e \<Longrightarrow> e = ArithmeticOverflow"
proof (induction i s sender now rule: startGame_loop.induct)
  case (1 i s sender now)
  from "1.prems" show ?case
    by (subst (asm) startGame_loop.simps)
       (auto simp: pushGame_def Let_def split: if_splits sum.splits dest: "1.IH")
qed

lemma consistent_withBatch:
  assumes "consistent s"
  shows "consistent (withBatch k s sender now)"
proof -
  let ?n = "nextGameId s"
  let ?s' = "withBatch k s sender now"
  have a: "allGames s = map (gameById s) [1..<?n]"
    and p: "\<And>q. playerListings s q = filter (\<lambda>g. player g = q) (allGames s)"
    and g: "\<And>gid. validGameId s gid \<Longrightarrow> gameId (gameById s gid) = gid"
    and n: "1 \<le> ?n"
    using assms by (simp_all add: consistent_def)
  have up: "[Suc 0..<?n + k] = [Suc 0..<?n] @ [?n..<?n + k]"
    using n by (intro upt_add_eq_append) simp
  have 1: "allGames ?s' = map (gameById ?s') [1..<nextGameId ?s']"
    by (auto simp: withBatch_def Let_def up a)
  have 2: "playerListings ?s' q = filter (\<lambda>g. player g = q) (allGames ?s')" for q
    by (simp add: withBatch_def Let_def p newListing_def filter_map comp_def)
  have 3: "validGameId ?s' gid \<Longrightarrow> gameId (gameById ?s' gid) = gid" for gid
    using g [of gid] by (auto simp: withBatch_def Let_def validGameId_def newListing_def)
  show ?thesis
    unfolding consistent_def using 1 2 3 n by (simp add: withBatch_def Let_def)
qed

subsection \<open>What each function returns\<close>

lemma setGame_fields [simp]:
  "owner (setGame s gid g) = owner s"
  "this (setGame s gid g) = this s"
  "hoboToken (setGame s gid g) = hoboToken s"
  "nextGameId (setGame s gid g) = nextGameId s"
  "playerListings (setGame s gid g) = playerListings s"
  "allGames (setGame s gid g) = allGames s"
  "gameById (setGame s gid g) = (gameById s)(gid := g)"
  by (simp_all add: setGame_def)

lemma setGame_twice [simp]: "setGame (setGame s gid a) gid b = setGame s gid b"
  by (simp add: setGame_def)

lemma validGameId_setGame [simp]: "validGameId (setGame s gid g) x = validGameId s x"
  by (simp add: validGameId_def)

lemma setGame_token: "setGame (s\<lparr>hoboToken := tok\<rparr>) gid g = (setGame s gid g)\<lparr>hoboToken := tok\<rparr>"
  by (simp add: setGame_def)

lemma commit_token: "commit (s\<lparr>hoboToken := tok\<rparr>) gid g = (commit s gid g)\<lparr>hoboToken := tok\<rparr>"
  by (simp add: commit_def updateListingInArrays_def setGame_def Let_def)

lemma initializeGame_Inr:
  "initializeGame s sender gid lid shownPrice = Inr s' \<longleftrightarrow>
     sender = owner s \<and> validGameId s gid \<and> lid \<noteq> 0 \<and> shownPrice > 0 \<and>
     stage (gameById s gid) = NotStarted \<and>
     s' = commit s gid ((gameById s gid)\<lparr>listingId := lid, displayedPrice := shownPrice, stage := Initialized\<rparr>)"
  by (auto simp: initializeGame_def Let_def commit_def)

lemma makeGuess_Inr:
  "makeGuess s sender gid isHigher = Inr s' \<longleftrightarrow>
     validGameId s gid \<and> player (gameById s gid) = sender \<and>
     stage (gameById s gid) = Initialized \<and>
     s' = commit s gid ((gameById s gid)\<lparr>higherOrLower := isHigher, stage := GuessSubmitted\<rparr>)"
  by (auto simp: makeGuess_def Let_def commit_def)

lemma playerWon_actualPrice [simp]: "playerWon (g\<lparr>actualPrice := a\<rparr>) actual = playerWon g actual"
  by (simp add: playerWon_def)

lemma settleBet_Inr:
  "settleBet s sender gid actual = Inr s' \<longleftrightarrow>
     sender = owner s \<and> validGameId s gid \<and> actual > 0 \<and>
     stage (gameById s gid) = GuessSubmitted \<and>
     (if playerWon (gameById s gid) actual
      then \<exists>tok. transfer (hoboToken s) (this s) (player (gameById s gid)) (GAME_COST * 2) = Some tok \<and>
             s' = (commit s gid (settled (gameById s gid) actual))\<lparr>hoboToken := tok\<rparr>
      else s' = commit s gid (settled (gameById s gid) actual))"
  by (auto simp: settleBet_def Let_def commit_def settled_def setGame_token
        updateListingInArrays_def split: option.splits)

lemma withBatch_fields [simp]:
  "owner (withBatch k s sender now) = owner s"
  "this (withBatch k s sender now) = this s"
  "hoboToken (withBatch k s sender now) = hoboToken s"
  "nextGameId (withBatch k s sender now) = nextGameId s + k"
  "allGames (withBatch k s sender now) =
     allGames s @ map (\<lambda>g. newListing g sender now) [nextGameId s..<nextGameId s + k]"
  "playerListings (withBatch k s sender now) p =
     (if p = sender
      then playerListings s p @ map (\<lambda>g. newListing g sender now) [nextGameId s..<nextGameId s + k]
      else playerListings s p)"
  "gameById (withBatch k s sender now) gid =
     (if nextGameId s \<le> gid \<and> gid < nextGameId s + k then newListing gid sender now
      else gameById s gid)"
  by (simp_all add: withBatch_def Let_def)

lemma startGame_Inr:
  "startGame s sender now = Inr (r, s') \<longleftrightarrow>
     (\<exists>tok. transferFrom (hoboToken s) (this s) sender (this s) BATCH_COST = Some tok \<and>
            nextGameId s + BATCH_SIZE \<le> max_uint256 \<and>
            s' = withBatch BATCH_SIZE (s\<lparr>hoboToken := tok\<rparr>) sender now \<and>
            r = (nextGameId s, nextGameId s + BATCH_SIZE - 1))"
proof (cases "transferFrom (hoboToken s) (this s) sender (this s) BATCH_COST")
  case None
  then show ?thesis by (simp add: startGame_def)
next
  case (Some tok)
  show ?thesis
  proof (cases "startGame_loop 0 (s\<lparr>hoboToken := tok\<rparr>) sender now")
    case (Inl e)
    then have "\<not> nextGameId s + BATCH_SIZE \<le> max_uint256"
      using startGame_loop_Inr [of 0 "s\<lparr>hoboToken := tok\<rparr>" sender now]
      by (auto simp: BATCH_SIZE_def)
    with Some Inl show ?thesis by (simp add: startGame_def Let_def)
  next
    case (Inr s2)
    then have "nextGameId s + BATCH_SIZE \<le> max_uint256"
      and "s2 = withBatch BATCH_SIZE (s\<lparr>hoboToken := tok\<rparr>) sender now"
      by (simp_all add: startGame_loop_Inr BATCH_SIZE_def)
    with Some Inr show ?thesis
      by (auto simp: startGame_def Let_def)
  qed
qed

lemma startGame_Inl:
  assumes "startGame s sender now = Inl e"
  shows "(e = TransferFailed \<and> transferFrom (hoboToken s) (this s) sender (this s) BATCH_COST = None) \<or>
     (e = ArithmeticOverflow \<and> max_uint256 < nextGameId s + BATCH_SIZE)"
proof (cases "transferFrom (hoboToken s) (this s) sender (this s) BATCH_COST")
  case None
  with assms show ?thesis by (simp add: startGame_def)
next
  case (Some tok)
  with assms have l: "startGame_loop 0 (s\<lparr>hoboToken := tok\<rparr>) sender now = Inl e"
    by (simp add: startGame_def Let_def split: sum.splits)
  then have "e = ArithmeticOverflow" by (rule startGame_loop_Inl)
  moreover have "\<not> nextGameId s + BATCH_SIZE \<le> max_uint256"
    using l startGame_loop_Inr [of 0 "s\<lparr>hoboToken := tok\<rparr>" sender now]
    by (auto simp: BATCH_SIZE_def)
  ultimately show ?thesis by simp
qed

subsection \<open>One event at a time\<close>

lemma advances_keeps:
  "advances g g' \<Longrightarrow> player g' = player g \<and> gameId g' = gameId g \<and> timestamp g' = timestamp g"
  by (induction rule: advances.induct) (simp_all add: settled_def)

lemma run_shape:
  assumes "run s sender now f = Inr s'"
  shows "(\<exists>tok. s' = s\<lparr>hoboToken := tok\<rparr>) \<or> (\<exists>a. s' = s\<lparr>owner := a\<rparr>) \<or>
    (\<exists>tok. nextGameId s + BATCH_SIZE \<le> max_uint256 \<and> f = StartGame \<and>
       s' = withBatch BATCH_SIZE (s\<lparr>hoboToken := tok\<rparr>) sender now) \<or>
    (\<exists>gid g'. validGameId s gid \<and> advances (gameById s gid) g' \<and>
       (s' = commit s gid g' \<or> (\<exists>tok. s' = (commit s gid g')\<lparr>hoboToken := tok\<rparr>)))"
proof (cases f)
  case StartGame
  with assms obtain r where "startGame s sender now = Inr (r, s')"
    by (cases "startGame s sender now") auto
  then show ?thesis using StartGame by (auto simp: startGame_Inr)
next
  case (InitializeGame gid lid shownPrice)
  with assms have *: "validGameId s gid" "lid \<noteq> 0" "shownPrice > 0" "stage (gameById s gid) = NotStarted"
    "s' = commit s gid ((gameById s gid)\<lparr>listingId := lid, displayedPrice := shownPrice, stage := Initialized\<rparr>)"
    by (simp_all add: initializeGame_Inr)
  from advances.listed [OF *(4,2,3)] *(1,5) show ?thesis by blast
next
  case (MakeGuess gid h)
  with assms have *: "validGameId s gid" "stage (gameById s gid) = Initialized"
    "s' = commit s gid ((gameById s gid)\<lparr>higherOrLower := h, stage := GuessSubmitted\<rparr>)"
    by (simp_all add: makeGuess_Inr)
  from advances.guessed [OF *(2), of h] *(1,3) show ?thesis by blast
next
  case (SettleBet gid actual)
  with assms have *: "validGameId s gid" "stage (gameById s gid) = GuessSubmitted" "actual > 0"
    and **: "s' = commit s gid (settled (gameById s gid) actual) \<or>
      (\<exists>tok. s' = (commit s gid (settled (gameById s gid) actual))\<lparr>hoboToken := tok\<rparr>)"
    by (auto simp: settleBet_Inr split: if_splits)
  from advances.paid [OF *(2,3)] *(1) ** show ?thesis by blast
next
  case (WithdrawFunds amount)
  with assms show ?thesis
    by (auto simp: withdrawFunds_def split: if_splits option.splits)
next
  case (TransferOwnership a)
  with assms show ?thesis
    by (auto simp: transferOwnership_def split: if_splits)
next
  case RenounceOwnership
  with assms show ?thesis
    by (auto simp: renounceOwnership_def split: if_splits)
qed

lemma step_shape:
  "step s ev = s \<or> (\<exists>tok. step s ev = s\<lparr>hoboToken := tok\<rparr>) \<or> (\<exists>a. step s ev = s\<lparr>owner := a\<rparr>) \<or>
    (\<exists>tok sender now. nextGameId s + BATCH_SIZE \<le> max_uint256 \<and>
       ev = Transaction sender now StartGame \<and>
       step s ev = withBatch BATCH_SIZE (s\<lparr>hoboToken := tok\<rparr>) sender now) \<or>
    (\<exists>gid g'. validGameId s gid \<and> advances (gameById s gid) g' \<and>
       (step s ev = commit s gid g' \<or> (\<exists>tok. step s ev = (commit s gid g')\<lparr>hoboToken := tok\<rparr>)))"
proof (cases ev)
  case (TokenMoved tok)
  then show ?thesis by auto
next
  case (Transaction sender now f)
  show ?thesis
  proof (cases "run s sender now f")
    case (Inl e)
    with Transaction show ?thesis by (simp add: call_def)
  next
    case (Inr s')
    with Transaction have "step s ev = s'" by (simp add: call_def)
    with run_shape [OF Inr] Transaction show ?thesis by auto
  qed
qed

lemma consistent_token [simp]: "consistent (s\<lparr>hoboToken := tok\<rparr>) = consistent s"
  by (simp add: consistent_def validGameId_def)

lemma consistent_owner [simp]: "consistent (s\<lparr>owner := a\<rparr>) = consistent s"
  by (simp add: consistent_def validGameId_def)

lemma consistent_step: "consistent s \<Longrightarrow> consistent (step s ev)"
  using step_shape [of s ev]
  by (auto simp: consistent_withBatch advances_keeps consistent_def [THEN iffD1]
      intro!: consistent_commit)

lemma advances_stage:
  "advances g g' \<Longrightarrow> stageIndex (stage g') = Suc (stageIndex (stage g))"
  by (induction rule: advances.induct) (simp_all add: settled_def)

lemma advances_not_settled: "advances g g' \<Longrightarrow> stage g \<noteq> Settled"
  by (induction rule: advances.induct) simp_all

lemma advances_price:
  "advances g g' \<Longrightarrow> stage g \<noteq> NotStarted \<Longrightarrow> displayedPrice g' = displayedPrice g"
  by (induction rule: advances.induct) (simp_all add: settled_def)

lemma advances_gameOk: "advances g g' \<Longrightarrow> gameOk g \<Longrightarrow> gameOk g'"
  by (induction rule: advances.induct) (auto simp: gameOk_def settled_def playerWon_def)

lemma step_game_any:
  "gameById (step s ev) gid = gameById s gid \<or>
   (validGameId s gid \<and> advances (gameById s gid) (gameById (step s ev) gid)) \<or>
   (nextGameId s \<le> gid \<and> gid < nextGameId (step s ev) \<and>
      (\<exists>sender now. gameById (step s ev) gid = newListing gid sender now))"
  using step_shape [of s ev]
  by (elim disjE exE conjE) (auto simp: validGameId_def)

lemma step_game:
  "validGameId s gid \<Longrightarrow>
     gameById (step s ev) gid = gameById s gid \<or>
     advances (gameById s gid) (gameById (step s ev) gid)"
  using step_game_any [of s ev gid] by (auto simp: validGameId_def)

lemma step_nextGameId:
  "nextGameId (step s ev) = nextGameId s \<or>
   ((\<exists>sender now. ev = Transaction sender now StartGame) \<and>
      nextGameId (step s ev) = nextGameId s + BATCH_SIZE)"
  using step_shape [of s ev]
  by (elim disjE exE conjE) auto

lemma step_allGames_length:
  "length (allGames (step s ev)) = length (allGames s) \<or>
   ((\<exists>sender now. ev = Transaction sender now StartGame) \<and>
      length (allGames (step s ev)) = length (allGames s) + BATCH_SIZE)"
proof -
  have u: "length (updateFirst gid g xs) = length xs" for gid g xs
    by (induction xs) simp_all
  have c: "length (allGames (commit s gid g)) = length (allGames s)" for gid g
    by (simp add: commit_def updateListingInArrays_def Let_def u)
  show ?thesis
    using step_shape [of s ev]
    by (elim disjE exE conjE) (auto simp: c)
qed

lemma step_valid: "validGameId s gid \<Longrightarrow> validGameId (step s ev) gid"
  using step_nextGameId [of s ev] by (auto simp: validGameId_def)

subsection \<open>Sequences of events and the invariants\<close>

lemma steps_Nil [simp]: "steps s [] = s"
  by (simp add: steps_def)

lemma steps_Cons [simp]: "steps s (ev # evs) = steps (step s ev) evs"
  by (simp add: steps_def)

lemma steps_valid: "validGameId s gid \<Longrightarrow> validGameId (steps s evs) gid"
  by (induction evs arbitrary: s) (simp_all add: step_valid)

lemma steps_stage_mono:
  "validGameId s gid \<Longrightarrow>
     stageIndex (stage (gameById s gid)) \<le> stageIndex (stage (gameById (steps s evs) gid))"
proof (induction evs arbitrary: s)
  case Nil
  then show ?case by simp
next
  case (Cons ev evs)
  have "stageIndex (stage (gameById s gid)) \<le> stageIndex (stage (gameById (step s ev) gid))"
    using step_game [OF Cons.prems, of ev] by (auto dest: advances_stage)
  also have "\<dots> \<le> stageIndex (stage (gameById (steps (step s ev) evs) gid))"
    by (rule Cons.IH [OF step_valid [OF Cons.prems]])
  finally show ?case by simp
qed

lemma settled_final:
  "validGameId s gid \<Longrightarrow> stage (gameById s gid) = Settled \<Longrightarrow>
     gameById (step s ev) gid = gameById s gid"
  using step_game [of s gid ev] by (auto dest: advances_not_settled)

lemma steps_settled:
  "validGameId s gid \<Longrightarrow> stage (gameById s gid) = Settled \<Longrightarrow>
     gameById (steps s evs) gid = gameById s gid"
proof (induction evs arbitrary: s)
  case Nil
  then show ?case by simp
next
  case (Cons ev evs)
  from Cons.prems have same: "gameById (step s ev) gid = gameById s gid"
    by (rule settled_final)
  with Cons.IH [OF step_valid [OF Cons.prems(1)], of ev] Cons.prems(2) show ?case by simp
qed

lemma steps_price:
  "validGameId s gid \<Longrightarrow> stage (gameById s gid) \<noteq> NotStarted \<Longrightarrow>
     displayedPrice (gameById (steps s evs) gid) = displayedPrice (gameById s gid) \<and>
     stage (gameById (steps s evs) gid) \<noteq> NotStarted"
proof (induction evs arbitrary: s)
  case Nil
  then show ?case by simp
next
  case (Cons ev evs)
  have 1: "displayedPrice (gameById (step s ev) gid) = displayedPrice (gameById s gid)"
    and 2: "stage (gameById (step s ev) gid) \<noteq> NotStarted"
    using step_game [OF Cons.prems(1), of ev] Cons.prems(2)
    by (auto dest: advances_price advances_stage)
  from Cons.IH [OF step_valid [OF Cons.prems(1)] 2] 1 show ?case by simp
qed

lemma unused_step:
  assumes "consistent s" "unused s"
  shows "unused (step s ev)"
  unfolding unused_def
proof (intro allI impI)
  fix gid assume nv: "\<not> validGameId (step s ev) gid"
  then have "\<not> validGameId s gid" using step_valid by blast
  moreover have "1 \<le> nextGameId s" using assms(1) by (simp add: consistent_def)
  ultimately have "gameById (step s ev) gid = gameById s gid"
    using step_game_any [of s ev gid] nv by (auto simp: validGameId_def)
  moreover note \<open>\<not> validGameId s gid\<close>
  ultimately show "gameById (step s ev) gid = zeroListing"
    using assms(2) by (simp add: unused_def)
qed

lemma gameOk_step:
  assumes "\<forall>gid. gameOk (gameById s gid)"
  shows "gameOk (gameById (step s ev) gid)"
  using step_game_any [of s ev gid] assms
  by (auto dest: advances_gameOk) (simp add: gameOk_def newListing_def)

lemma reachable_inv:
  "reachable s \<Longrightarrow> consistent s \<and> unused s \<and> (\<forall>gid. gameOk (gameById s gid))"
proof (induction rule: reachable.induct)
  case (deployed sender self tok)
  show ?case
    by (simp add: consistent_constructor unused_def gameOk_def)
       (simp add: constructor_def zeroListing_def)
next
  case (stepped s ev)
  then show ?case
    by (simp add: consistent_step unused_step gameOk_step)
qed

subsection \<open>Counting, balances, issued ids\<close>


lemma transferFrom_balance:
  assumes "transferFrom t spender src dst amount = Some t'" "src \<noteq> dst"
  shows "balanceOf t' src + amount = balanceOf t src \<and> balanceOf t' dst = balanceOf t dst + amount"
  using assms
  by (auto simp: transferFrom_def balanceOf_def move_tokens_def Let_def split: if_splits)

lemma transfer_balance:
  assumes "transfer t src dst amount = Some t'" "src \<noteq> dst"
  shows "balanceOf t' src + amount = balanceOf t src \<and> balanceOf t' dst = balanceOf t dst + amount"
  using assms
  by (auto simp: transfer_def balanceOf_def move_tokens_def Let_def split: if_splits)

lemma reachable_ids_below:
  assumes "reachable s" "g \<in> set (allGames s)"
  shows "0 < gameId g \<and> gameId g < nextGameId s"
proof -
  from assms(1) have "consistent s" by (simp add: reachable_inv)
  then have "map gameId (allGames s) = [1..<nextGameId s]" by (rule consistent_ids)
  moreover from assms(2) have "gameId g \<in> set (map gameId (allGames s))" by simp
  ultimately show ?thesis by simp
qed

subsection \<open>The scenario, evaluated\<close>

lemmas who = alice_def bob_def operator_def ledger_def

lemma startGame_ok:
  assumes "transferFrom (hoboToken s) (this s) sender (this s) BATCH_COST = Some tok"
    and "nextGameId s + BATCH_SIZE \<le> max_uint256"
  shows "startGame s sender now =
    Inr ((nextGameId s, nextGameId s + BATCH_SIZE - 1),
         withBatch BATCH_SIZE (s\<lparr>hoboToken := tok\<rparr>) sender now)"
  using assms startGame_Inr [of s sender now] by blast

lemma debit_after0: "transferFrom tok0 ledger alice ledger BATCH_COST = Some tok1"
  by (simp add: transferFrom_def tok0_def tok1_def move_tokens_def Let_def who BATCH_COST_def
      GAME_COST_def BATCH_SIZE_def fun_eq_iff)

lemma startGame_after0:
  "startGame after0 alice 1700000000 =
     Inr ((1, 10), withBatch BATCH_SIZE (after0\<lparr>hoboToken := tok1\<rparr>) alice 1700000000)"
  using startGame_ok [of after0 alice tok1 1700000000] debit_after0
  by (simp add: after0_def constructor_def BATCH_SIZE_def max_uint256_def)

lemma after1_eq: "after1 = withBatch BATCH_SIZE (after0\<lparr>hoboToken := tok1\<rparr>) alice 1700000000"
  by (simp add: after1_def call_def startGame_after0)

lemma after1_facts:
  "nextGameId after1 = 11" "owner after1 = operator" "this after1 = ledger" "hoboToken after1 = tok1"
  "gameById after1 3 = newListing 3 alice 1700000000"
  "gameById after1 4 = newListing 4 alice 1700000000"
  by (simp_all add: after1_eq after0_def constructor_def BATCH_SIZE_def)

lemma init_after1: "initializeGame after1 operator 3 0x2A 500000 = Inr (commit after1 3 listed3)"
  by (simp add: initializeGame_Inr after1_facts validGameId_def listed3_def newListing_def)

lemma after2_eq: "after2 = commit after1 3 listed3"
  by (simp add: after2_def call_def init_after1)

lemma after2_facts:
  "nextGameId after2 = 11" "owner after2 = operator" "this after2 = ledger" "hoboToken after2 = tok1"
  "gameById after2 3 = listed3"
  by (simp_all add: after2_eq after1_facts)

lemma guess_after2: "makeGuess after2 alice 3 True = Inr (commit after2 3 guessed3)"
  by (simp add: makeGuess_Inr after2_facts validGameId_def listed3_def guessed3_def newListing_def)

lemma after3_eq: "after3 = commit after2 3 guessed3"
  by (simp add: after3_def call_def guess_after2)

lemma after3_facts:
  "nextGameId after3 = 11" "owner after3 = operator" "this after3 = ledger" "hoboToken after3 = tok1"
  "gameById after3 3 = guessed3"
  by (simp_all add: after3_eq after2_facts)

lemma guessed3_fields:
  "stage guessed3 = GuessSubmitted" "player guessed3 = alice" "higherOrLower guessed3"
  "displayedPrice guessed3 = 500000"
  by (simp_all add: guessed3_def listed3_def newListing_def)

lemma pay_after3:
  "transfer tok1 ledger alice (GAME_COST * 2) = Some (move_tokens tok1 ledger alice (GAME_COST * 2))"
  by (simp add: transfer_def tok1_def who GAME_COST_def)

lemma settle_after3:
  "settleBet after3 operator 3 600000 =
     Inr ((commit after3 3 (settled guessed3 600000))\<lparr>hoboToken := move_tokens tok1 ledger alice (GAME_COST * 2)\<rparr>)"
  by (simp add: settleBet_Inr after3_facts validGameId_def guessed3_fields playerWon_def pay_after3)

lemma after4_eq:
  "after4 = (commit after3 3 (settled guessed3 600000))\<lparr>hoboToken := move_tokens tok1 ledger alice (GAME_COST * 2)\<rparr>"
  by (simp add: after4_def call_def settle_after3)

lemma after4_facts:
  "nextGameId after4 = 11" "gameById after4 3 = settled guessed3 600000"
  by (simp_all add: after4_eq after3_facts)

lemma settle_lost:
  "settleBet after3 operator 3 400000 = Inr (commit after3 3 (settled guessed3 400000))"
  by (simp add: settleBet_Inr after3_facts validGameId_def guessed3_fields playerWon_def)

lemma lost4_eq: "lost4 = commit after3 3 (settled guessed3 400000)"
  by (simp add: lost4_def call_def settle_lost)

lemma reachable_scenario:
  "reachable after0" "reachable after1" "reachable after2" "reachable after3" "reachable after4"
proof -
  show 0: "reachable after0" by (simp add: after0_def reachable.deployed)
  then show 1: "reachable after1" unfolding after1_def by (rule reachable.stepped)
  then show 2: "reachable after2" unfolding after2_def by (rule reachable.stepped)
  then show 3: "reachable after3" unfolding after3_def by (rule reachable.stepped)
  then show "reachable after4" unfolding after4_def by (rule reachable.stepped)
qed

lemma tie_facts:
  "tie2 = commit after1 4 ((newListing 4 alice 1700000000)
      \<lparr>listingId := 0x2B, displayedPrice := 500000, stage := Initialized\<rparr>)"
  "tie3 = commit tie2 4 ((newListing 4 alice 1700000000)
      \<lparr>listingId := 0x2B, displayedPrice := 500000, higherOrLower := False, stage := GuessSubmitted\<rparr>)"
proof -
  show 2: "tie2 = commit after1 4 ((newListing 4 alice 1700000000)
      \<lparr>listingId := 0x2B, displayedPrice := 500000, stage := Initialized\<rparr>)"
  proof -
    have "initializeGame after1 operator 4 0x2B 500000 = Inr (commit after1 4 ((newListing 4 alice 1700000000)
      \<lparr>listingId := 0x2B, displayedPrice := 500000, stage := Initialized\<rparr>))"
      by (simp add: initializeGame_Inr after1_facts validGameId_def newListing_def)
    then show ?thesis by (simp add: tie2_def call_def)
  qed
  have "makeGuess tie2 alice 4 False = Inr (commit tie2 4 ((newListing 4 alice 1700000000)
      \<lparr>listingId := 0x2B, displayedPrice := 500000, higherOrLower := False, stage := GuessSubmitted\<rparr>))"
    by (simp add: makeGuess_Inr 2 after1_facts validGameId_def newListing_def)
  then show "tie3 = commit tie2 4 ((newListing 4 alice 1700000000)
      \<lparr>listingId := 0x2B, displayedPrice := 500000, higherOrLower := False, stage := GuessSubmitted\<rparr>)"
    by (simp add: tie3_def call_def)
qed

lemma settle_tie: "settleBet tie3 operator 4 500000 = Inr tie4"
proof -
  have "\<exists>s'. settleBet tie3 operator 4 500000 = Inr s'"
    by (simp add: settleBet_Inr tie_facts after1_facts validGameId_def newListing_def playerWon_def
        transfer_def tok1_def who GAME_COST_def)
  then show ?thesis by (auto simp: tie4_def call_def)
qed

lemma drained_facts:
  "owner drained = operator" "this drained = ledger" "hoboToken drained = tokDrained"
  "nextGameId drained = 11" "gameById drained 3 = guessed3"
  by (simp_all add: drained_def after3_facts)

subsection \<open>The proxy\<close>

lemma field_failure [simp]:
  "field ''success'' (failure msg) = Some (JBool False)"
  "field ''error'' (failure msg) = Some (JStr msg)"
  by (simp_all add: field_def failure_def)











subsection \<open>Settled games\<close>

lemma settled_payout_step:
  assumes "settleBet s sender gid actual = Inr s'"
  shows "stage (gameById s' gid) = Settled \<and>
         (payout (gameById s' gid) > 0 \<longleftrightarrow> won (gameById s' gid)) \<and>
         (won (gameById s' gid) \<longrightarrow>
            payout (gameById s' gid) = 2 * GAME_COST \<and>
            transfer (hoboToken s) (this s) (player (gameById s gid)) (2 * GAME_COST) = Some (hoboToken s') \<and>
            (player (gameById s gid) \<noteq> this s \<longrightarrow>
               balanceOf (hoboToken s') (player (gameById s gid)) =
                 balanceOf (hoboToken s) (player (gameById s gid)) + 2 * GAME_COST)) \<and>
         (\<not> won (gameById s' gid) \<longrightarrow>
            payout (gameById s' gid) = 0 \<and> hoboToken s' = hoboToken s)"
proof (cases "playerWon (gameById s gid) actual")
  case True
  with assms obtain tok where
    tok: "transfer (hoboToken s) (this s) (player (gameById s gid)) (GAME_COST * 2) = Some tok"
    and s': "s' = (commit s gid (settled (gameById s gid) actual))\<lparr>hoboToken := tok\<rparr>"
    by (auto simp: settleBet_Inr)
  have "player (gameById s gid) \<noteq> this s \<Longrightarrow>
      balanceOf tok (player (gameById s gid)) =
        balanceOf (hoboToken s) (player (gameById s gid)) + GAME_COST * 2"
    using transfer_balance [OF tok] by auto
  with True tok show ?thesis
    by (simp add: s' settled_def GAME_COST_def mult.commute)
next
  case False
  with assms have "s' = commit s gid (settled (gameById s gid) actual)"
    by (auto simp: settleBet_Inr)
  with False show ?thesis by (simp add: settled_def)
qed

lemma reachable_settled_payout:
  assumes "reachable t" "stage (gameById t k) = Settled"
  shows "(payout (gameById t k) > 0 \<longleftrightarrow> won (gameById t k)) \<and>
         (won (gameById t k) \<longrightarrow> payout (gameById t k) = 2 * GAME_COST) \<and>
         (\<not> won (gameById t k) \<longrightarrow> payout (gameById t k) = 0)"
proof -
  from assms(1) have "gameOk (gameById t k)" by (simp add: reachable_inv)
  with assms(2) show ?thesis by (simp add: gameOk_def GAME_COST_def)
qed

lemma reachable_price:
  "reachable t \<Longrightarrow> stage (gameById t k) \<noteq> NotStarted \<Longrightarrow> displayedPrice (gameById t k) \<noteq> 0"
  using reachable_inv [of t] by (auto simp: gameOk_def)

section \<open>The claims\<close>

text \<open>
  Claim C1. In every reachable storage a call of \<open>startGame\<close> has one of two outcomes.
  Either it returns the inclusive range \<open>(firstId, lastId)\<close> of \<open>BATCH_SIZE = 10\<close> new
  games: the token's \<open>transferFrom\<close> of \<open>BATCH_COST\<close> from the caller succeeded (the
  caller's balance is lower by the full batch cost), the ten ids are
  \<open>nextGameId, \<dots>, nextGameId + 9\<close> in ascending order, none of them was stored under or
  carried by an earlier game, each new game has stage \<open>NotStarted\<close>, the caller as player and
  zero price and payout fields, and the three stores grew by exactly these ten records. Or
  the call fails and the storage is the one of before: that is the outcome when the debit
  fails (error \<open>TransferFailed\<close>), and the only other failure is the overflow check of the id
  counter. There is no partial batch.
\<close>

theorem startGame_all_or_nothing:
  assumes "reachable s"
  shows "case startGame s sender now of
      Inl e \<Rightarrow>
        call s sender now StartGame = s \<and>
        (e = TransferFailed \<longleftrightarrow>
           transferFrom (hoboToken s) (this s) sender (this s) BATCH_COST = None) \<and>
        (e \<noteq> TransferFailed \<longrightarrow>
           e = ArithmeticOverflow \<and> max_uint256 < nextGameId s + BATCH_SIZE)
    | Inr ((firstId, lastId), s') \<Rightarrow>
        call s sender now StartGame = s' \<and>
        transferFrom (hoboToken s) (this s) sender (this s) BATCH_COST = Some (hoboToken s') \<and>
        (sender \<noteq> this s \<longrightarrow>
           balanceOf (hoboToken s') sender + BATCH_COST = balanceOf (hoboToken s) sender) \<and>
        firstId = nextGameId s \<and> lastId = firstId + BATCH_SIZE - 1 \<and> BATCH_SIZE = 10 \<and>
        nextGameId s' = lastId + 1 \<and>
        getTotalGames s' = getTotalGames s + BATCH_SIZE \<and>
        allGames s' = allGames s @ map (gameById s') [firstId..<lastId + 1] \<and>
        playerListings s' sender = playerListings s sender @ map (gameById s') [firstId..<lastId + 1] \<and>
        (\<forall>p. p \<noteq> sender \<longrightarrow> playerListings s' p = playerListings s p) \<and>
        (\<forall>gid. gid < firstId \<longrightarrow> gameById s' gid = gameById s gid) \<and>
        (\<forall>g \<in> set (allGames s). gameId g < firstId) \<and>
        (\<forall>gid. firstId \<le> gid \<and> gid \<le> lastId \<longrightarrow>
           gameById s gid = zeroListing \<and>
           gameById s' gid = newListing gid sender now \<and>
           gameId (gameById s' gid) = gid \<and>
           stage (gameById s' gid) = NotStarted \<and>
           player (gameById s' gid) = sender \<and>
           displayedPrice (gameById s' gid) = 0 \<and>
           actualPrice (gameById s' gid) = 0 \<and>
           payout (gameById s' gid) = 0)"
proof (cases "startGame s sender now")
  case (Inl e)
  have n: "transferFrom (hoboToken s) (this s) sender (this s) BATCH_COST = None \<Longrightarrow>
      e = TransferFailed"
    using Inl by (simp add: startGame_def)
  from startGame_Inl [OF Inl] n Inl show ?thesis
    by (auto simp: call_def)
next
  case (Inr x)
  obtain firstId lastId s' where x: "x = ((firstId, lastId), s')"
    by (metis surj_pair)
  from Inr x obtain tok where tok: "transferFrom (hoboToken s) (this s) sender (this s) BATCH_COST = Some tok"
    and s': "s' = withBatch BATCH_SIZE (s\<lparr>hoboToken := tok\<rparr>) sender now"
    and ids: "firstId = nextGameId s" "lastId = nextGameId s + BATCH_SIZE - 1"
    by (auto simp: startGame_Inr)
  have c: "call s sender now StartGame = s'"
    using Inr x by (simp add: call_def)
  have t: "hoboToken s' = tok" by (simp add: s')
  have bal: "sender \<noteq> this s \<Longrightarrow>
      balanceOf (hoboToken s') sender + BATCH_COST = balanceOf (hoboToken s) sender"
    using transferFrom_balance [OF tok] by (simp add: t)
  have old: "\<forall>g \<in> set (allGames s). gameId g < firstId"
    using reachable_ids_below [OF assms] by (simp add: ids)
  have fresh: "firstId \<le> gid \<Longrightarrow> gameById s gid = zeroListing" for gid
    using reachable_inv [OF assms] by (simp add: unused_def validGameId_def ids)
  have "lastId + 1 = nextGameId s + BATCH_SIZE"
    by (simp add: ids BATCH_SIZE_def)
  then have up: "[firstId..<lastId + 1] = [nextGameId s..<nextGameId s + BATCH_SIZE]"
    by (simp only: ids(1))
  have m: "map (gameById s') [nextGameId s..<nextGameId s + BATCH_SIZE] =
      map (\<lambda>g. newListing g sender now) [nextGameId s..<nextGameId s + BATCH_SIZE]"
    by (simp add: s')
  have lists: "allGames s' = allGames s @ map (gameById s') [firstId..<lastId + 1]"
    "playerListings s' sender = playerListings s sender @ map (gameById s') [firstId..<lastId + 1]"
    unfolding up m by (simp_all add: s')
  have games: "\<forall>gid. firstId \<le> gid \<and> gid \<le> lastId \<longrightarrow>
           gameById s gid = zeroListing \<and>
           gameById s' gid = newListing gid sender now \<and>
           gameId (gameById s' gid) = gid \<and>
           stage (gameById s' gid) = NotStarted \<and>
           player (gameById s' gid) = sender \<and>
           displayedPrice (gameById s' gid) = 0 \<and>
           actualPrice (gameById s' gid) = 0 \<and>
           payout (gameById s' gid) = 0"
    using fresh by (auto simp: s' ids BATCH_SIZE_def newListing_def)
  have rest: "nextGameId s' = lastId + 1" "getTotalGames s' = getTotalGames s + BATCH_SIZE"
    "\<forall>p. p \<noteq> sender \<longrightarrow> playerListings s' p = playerListings s p"
    "\<forall>gid. gid < firstId \<longrightarrow> gameById s' gid = gameById s gid"
    "lastId = firstId + BATCH_SIZE - 1" "BATCH_SIZE = 10"
    by (simp_all add: s' ids getTotalGames_def BATCH_SIZE_def)
  have debit: "transferFrom (hoboToken s) (this s) sender (this s) BATCH_COST = Some (hoboToken s')"
    "sender \<noteq> this s \<longrightarrow>
       balanceOf (hoboToken s') sender + BATCH_COST = balanceOf (hoboToken s) sender"
    using tok t bal by simp_all
  show ?thesis
    unfolding Inr x sum.case prod.case
    by (intro conjI c debit ids(1) rest lists old games)
qed

theorem startGame_all_or_nothing_witness:
  "reachable after0 \<and> startGame after0 alice 1700000000 = Inr ((1, 10), after1) \<and>
   nextGameId after1 = 11 \<and> getTotalGames after1 = 10 \<and>
   balanceOf (hoboToken after1) alice + BATCH_COST = balanceOf (hoboToken after0) alice"
proof -
  have r: "reachable after0" by (rule reachable_scenario)
  have e: "startGame after0 alice 1700000000 = Inr ((1, 10), after1)"
    by (simp add: startGame_after0 after1_eq)
  have a: "alice \<noteq> this after0" "getTotalGames after0 = 0"
    by (simp_all add: after0_def constructor_def who getTotalGames_def)
  from startGame_all_or_nothing [OF r, where sender = alice and now = 1700000000] e a r
  show ?thesis
    by simp
qed

text \<open>
  Claim C2. For an existing game, one event either leaves its record as it is or moves its
  stage to the next one in the order NotStarted, Initialized, GuessSubmitted, Settled; over
  any sequence of events the stage never goes back. \<open>initializeGame\<close>, \<open>makeGuess\<close> and
  \<open>settleBet\<close> called on a game that is not in the stage they expect fail and leave the
  storage unchanged. A settled game is final: after any sequence of events its record, and
  what \<open>getGame\<close> returns for it, are the same.
\<close>

theorem stage_forward_only:
  assumes "validGameId s gid"
  shows "(gameById (step s ev) gid = gameById s gid \<or>
          stageIndex (stage (gameById (step s ev) gid)) = stageIndex (stage (gameById s gid)) + 1) \<and>
    stageIndex (stage (gameById s gid)) \<le> stageIndex (stage (gameById (steps s evs) gid)) \<and>
    (stage (gameById s gid) \<noteq> NotStarted \<longrightarrow>
       isl (initializeGame s sender gid lid shownPrice) \<and>
       call s sender now (InitializeGame gid lid shownPrice) = s) \<and>
    (stage (gameById s gid) \<noteq> Initialized \<longrightarrow>
       isl (makeGuess s sender gid isHigher) \<and>
       call s sender now (MakeGuess gid isHigher) = s) \<and>
    (stage (gameById s gid) \<noteq> GuessSubmitted \<longrightarrow>
       isl (settleBet s sender gid actual) \<and>
       call s sender now (SettleBet gid actual) = s) \<and>
    (stage (gameById s gid) = Settled \<longrightarrow>
       gameById (steps s evs) gid = gameById s gid \<and>
       getGame (steps s evs) gid = getGame s gid \<and>
       getGame s gid = Inr (gameById s gid))"
proof -
  have 1: "gameById (step s ev) gid = gameById s gid \<or>
      stageIndex (stage (gameById (step s ev) gid)) = stageIndex (stage (gameById s gid)) + 1"
    using step_game [OF assms, of ev] by (auto dest: advances_stage)
  have 2: "stageIndex (stage (gameById s gid)) \<le> stageIndex (stage (gameById (steps s evs) gid))"
    by (rule steps_stage_mono [OF assms])
  have 3: "stage (gameById s gid) \<noteq> NotStarted \<Longrightarrow>
      isl (initializeGame s sender gid lid shownPrice) \<and>
      call s sender now (InitializeGame gid lid shownPrice) = s"
    by (simp add: initializeGame_def call_def)
  have 4: "stage (gameById s gid) \<noteq> Initialized \<Longrightarrow>
      isl (makeGuess s sender gid isHigher) \<and> call s sender now (MakeGuess gid isHigher) = s"
    by (simp add: makeGuess_def call_def)
  have 5: "stage (gameById s gid) \<noteq> GuessSubmitted \<Longrightarrow>
      isl (settleBet s sender gid actual) \<and> call s sender now (SettleBet gid actual) = s"
    by (simp add: settleBet_def call_def)
  have 6: "stage (gameById s gid) = Settled \<Longrightarrow>
      gameById (steps s evs) gid = gameById s gid \<and>
      getGame (steps s evs) gid = getGame s gid \<and> getGame s gid = Inr (gameById s gid)"
    using steps_settled [OF assms, of evs] steps_valid [OF assms, of evs] assms
    by (simp add: getGame_def)
  from 1 2 3 4 5 6 show ?thesis by blast
qed

theorem stage_forward_only_witness:
  "validGameId after4 3 \<and> stage (gameById after4 3) = Settled \<and>
   isl (initializeGame after4 operator 3 0x2A 500000) \<and>
   isl (makeGuess after4 alice 3 False) \<and>
   isl (settleBet after4 operator 3 700000) \<and>
   call after4 operator 1700000400 (SettleBet 3 700000) = after4 \<and>
   gameById (steps after4 [Transaction operator 1700000400 (SettleBet 3 700000),
                       Transaction alice 1700000500 StartGame]) 3 = gameById after4 3"
proof -
  have v: "validGameId after4 3" by (simp add: validGameId_def after4_facts)
  have st: "stage (gameById after4 3) = Settled" by (simp add: after4_facts settled_def)
  from stage_forward_only [OF v, where sender = operator and lid = "0x2A" and shownPrice = 500000
      and now = 1700000400 and actual = 700000 and evs =
      "[Transaction operator 1700000400 (SettleBet 3 700000), Transaction alice 1700000500 StartGame]"]
    v st
  have 1: "isl (initializeGame after4 operator 3 0x2A 500000)"
    "gameById (steps after4 [Transaction operator 1700000400 (SettleBet 3 700000),
                       Transaction alice 1700000500 StartGame]) 3 = gameById after4 3"
    "isl (settleBet after4 operator 3 700000)"
    "call after4 operator 1700000400 (SettleBet 3 700000) = after4"
    by (simp_all del: steps_Cons steps_Nil)
  from stage_forward_only [OF v, where sender = alice and isHigher = False] st
  have 2: "isl (makeGuess after4 alice 3 False)" by simp
  from v st 1 2 show ?thesis by simp
qed

text \<open>
  Claim C3. After a successful \<open>settleBet\<close> the game's \<open>won\<close> is true exactly when the
  guess was higher and the actual price is above the displayed one, or the guess was lower
  and the actual price is below it, or the two prices are equal; in particular equal prices
  win whatever the guess. The actual price is stored, the displayed price and the guess
  are untouched.
\<close>

theorem settleBet_won_rule:
  assumes "settleBet s sender gid actual = Inr s'"
  shows "(won (gameById s' gid) \<longleftrightarrow>
            (higherOrLower (gameById s gid) \<and> actual > displayedPrice (gameById s gid)) \<or>
            (\<not> higherOrLower (gameById s gid) \<and> actual < displayedPrice (gameById s gid)) \<or>
            actual = displayedPrice (gameById s gid)) \<and>
         (actual = displayedPrice (gameById s gid) \<longrightarrow> won (gameById s' gid)) \<and>
         actualPrice (gameById s' gid) = actual \<and>
         displayedPrice (gameById s' gid) = displayedPrice (gameById s gid) \<and>
         higherOrLower (gameById s' gid) = higherOrLower (gameById s gid)"
proof -
  from assms have "gameById s' gid = settled (gameById s gid) actual"
    by (auto simp: settleBet_Inr split: if_splits)
  then show ?thesis
    by (auto simp: settled_def playerWon_def)
qed

theorem settleBet_won_rule_witness:
  "settleBet tie3 operator 4 500000 = Inr tie4 \<and>
   \<not> higherOrLower (gameById tie3 4) \<and> displayedPrice (gameById tie3 4) = 500000 \<and>
   won (gameById tie4 4) \<and> actualPrice (gameById tie4 4) = 500000"
proof -
  have g: "\<not> higherOrLower (gameById tie3 4)" "displayedPrice (gameById tie3 4) = 500000"
    by (simp_all add: tie_facts newListing_def)
  from settleBet_won_rule [OF settle_tie] g settle_tie show ?thesis by simp
qed

text \<open>
  Claim C4. After a successful \<open>settleBet\<close> the game is settled and its payout is positive
  exactly when it is won. A won game has payout \<open>2 * GAME_COST\<close> and the token's transfer
  of that amount from the contract to the player succeeded; a lost game has payout 0 and
  the token state is untouched. In every reachable storage a settled game has a positive
  payout exactly when it is won, \<open>2 * GAME_COST\<close> when won and 0 when lost.
\<close>

theorem settleBet_payout:
  "(settleBet s sender gid actual = Inr s' \<longrightarrow>
      stage (gameById s' gid) = Settled \<and>
      (payout (gameById s' gid) > 0 \<longleftrightarrow> won (gameById s' gid)) \<and>
      (won (gameById s' gid) \<longrightarrow>
         payout (gameById s' gid) = 2 * GAME_COST \<and>
         transfer (hoboToken s) (this s) (player (gameById s gid)) (2 * GAME_COST) = Some (hoboToken s') \<and>
         (player (gameById s gid) \<noteq> this s \<longrightarrow>
            balanceOf (hoboToken s') (player (gameById s gid)) =
              balanceOf (hoboToken s) (player (gameById s gid)) + 2 * GAME_COST)) \<and>
      (\<not> won (gameById s' gid) \<longrightarrow>
         payout (gameById s' gid) = 0 \<and> hoboToken s' = hoboToken s)) \<and>
   (reachable t \<and> stage (gameById t k) = Settled \<longrightarrow>
      (payout (gameById t k) > 0 \<longleftrightarrow> won (gameById t k)) \<and>
      (won (gameById t k) \<longrightarrow> payout (gameById t k) = 2 * GAME_COST) \<and>
      (\<not> won (gameById t k) \<longrightarrow> payout (gameById t k) = 0))"
  using settled_payout_step [of s sender gid actual s'] reachable_settled_payout [of t k]
  by blast

theorem settleBet_payout_witness:
  "settleBet after3 operator 3 600000 = Inr after4 \<and> won (gameById after4 3) \<and>
   payout (gameById after4 3) = 2 * GAME_COST \<and>
   balanceOf (hoboToken after4) alice = balanceOf (hoboToken after3) alice + 2 * GAME_COST \<and>
   settleBet after3 operator 3 400000 = Inr lost4 \<and> \<not> won (gameById lost4 3) \<and>
   payout (gameById lost4 3) = 0 \<and> hoboToken lost4 = hoboToken after3 \<and>
   reachable after4 \<and> stage (gameById after4 3) = Settled"
proof -
  have w: "settleBet after3 operator 3 600000 = Inr after4" by (simp add: settle_after3 after4_eq)
  have l: "settleBet after3 operator 3 400000 = Inr lost4" by (simp add: settle_lost lost4_eq)
  have gw: "won (gameById after4 3)" "player (gameById after3 3) = alice" "alice \<noteq> this after3"
    "stage (gameById after4 3) = Settled"
    by (simp_all add: after4_facts after3_facts settled_def playerWon_def guessed3_fields who)
  have gl: "\<not> won (gameById lost4 3)"
    by (simp add: lost4_eq settled_def playerWon_def guessed3_fields)
  have r: "reachable after4" by (rule reachable_scenario)
  from settleBet_payout [where s = after3 and sender = operator and gid = 3 and actual = 600000
      and s' = after4 and t = after4 and k = 3]
    settleBet_payout [where s = after3 and sender = operator and gid = 3 and actual = 400000
      and s' = lost4 and t = after4 and k = 3] w l gw gl r
  show ?thesis by simp
qed

text \<open>
  Claim C5. \<open>settleBet\<close> is all or nothing. When it succeeds, the stored price, the final
  stage and, for a won game, the token transfer of the payout are all in the storage after
  the call. When it fails the storage after the call is the storage before it. A won
  settlement whose payout transfer fails is such a failure (\<open>PayoutFailed\<close>), and so is a
  call with an id that names no game, a game in another stage, or a zero price.
\<close>

theorem settleBet_atomic:
  "(case settleBet s sender gid actual of
      Inl e \<Rightarrow> call s sender now (SettleBet gid actual) = s
    | Inr s' \<Rightarrow>
        call s sender now (SettleBet gid actual) = s' \<and>
        stage (gameById s' gid) = Settled \<and> actualPrice (gameById s' gid) = actual \<and>
        (won (gameById s' gid) \<longrightarrow>
           transfer (hoboToken s) (this s) (player (gameById s gid)) (payout (gameById s' gid)) =
             Some (hoboToken s'))) \<and>
   (sender = owner s \<and> validGameId s gid \<and> actual > 0 \<and>
    stage (gameById s gid) = GuessSubmitted \<and> playerWon (gameById s gid) actual \<and>
    transfer (hoboToken s) (this s) (player (gameById s gid)) (GAME_COST * 2) = None \<longrightarrow>
      settleBet s sender gid actual = Inl PayoutFailed) \<and>
   (\<not> validGameId s gid \<or> stage (gameById s gid) \<noteq> GuessSubmitted \<or> actual = 0 \<longrightarrow>
      isl (settleBet s sender gid actual))"
proof -
  have 1: "settleBet s sender gid actual = Inl e \<Longrightarrow> call s sender now (SettleBet gid actual) = s" for e
    by (simp add: call_def)
  have 2: "call s sender now (SettleBet gid actual) = s' \<and>
        stage (gameById s' gid) = Settled \<and> actualPrice (gameById s' gid) = actual \<and>
        (won (gameById s' gid) \<longrightarrow>
           transfer (hoboToken s) (this s) (player (gameById s gid)) (payout (gameById s' gid)) =
             Some (hoboToken s'))"
    if ok: "settleBet s sender gid actual = Inr s'" for s'
  proof -
    have "call s sender now (SettleBet gid actual) = s'"
      using ok by (simp add: call_def)
    moreover have "gameById s' gid = settled (gameById s gid) actual \<and>
        (playerWon (gameById s gid) actual \<longrightarrow>
           transfer (hoboToken s) (this s) (player (gameById s gid)) (GAME_COST * 2) =
             Some (hoboToken s'))"
      using ok by (auto simp: settleBet_Inr split: if_splits)
    ultimately show ?thesis by (auto simp: settled_def)
  qed
  have 3: "sender = owner s \<and> validGameId s gid \<and> actual > 0 \<and>
    stage (gameById s gid) = GuessSubmitted \<and> playerWon (gameById s gid) actual \<and>
    transfer (hoboToken s) (this s) (player (gameById s gid)) (GAME_COST * 2) = None \<longrightarrow>
      settleBet s sender gid actual = Inl PayoutFailed"
    by (simp add: settleBet_def Let_def)
  have 4: "\<not> validGameId s gid \<or> stage (gameById s gid) \<noteq> GuessSubmitted \<or> actual = 0 \<longrightarrow>
      isl (settleBet s sender gid actual)"
    by (auto simp: settleBet_def)
  have 5: "case settleBet s sender gid actual of
      Inl e \<Rightarrow> call s sender now (SettleBet gid actual) = s
    | Inr s' \<Rightarrow>
        call s sender now (SettleBet gid actual) = s' \<and>
        stage (gameById s' gid) = Settled \<and> actualPrice (gameById s' gid) = actual \<and>
        (won (gameById s' gid) \<longrightarrow>
           transfer (hoboToken s) (this s) (player (gameById s gid)) (payout (gameById s' gid)) =
             Some (hoboToken s'))"
    using 1 2 by (cases "settleBet s sender gid actual") simp_all
  show ?thesis
    by (intro conjI 3 4 5)
qed

theorem settleBet_atomic_witness:
  "transfer (hoboToken drained) (this drained) (player (gameById drained 3)) (GAME_COST * 2) = None \<and>
   settleBet drained operator 3 600000 = Inl PayoutFailed \<and>
   call drained operator 1700000300 (SettleBet 3 600000) = drained \<and>
   isl (settleBet after3 operator 3 0) \<and>
   call after3 operator 1700000300 (SettleBet 3 0) = after3"
proof -
  have t: "transfer (hoboToken drained) (this drained) (player (gameById drained 3)) (GAME_COST * 2) = None"
    by (simp add: drained_facts transfer_def tokDrained_def GAME_COST_def)
  have h: "operator = owner drained" "validGameId drained 3" "stage (gameById drained 3) = GuessSubmitted"
    "playerWon (gameById drained 3) 600000"
    by (simp_all add: drained_facts validGameId_def guessed3_fields playerWon_def)
  from settleBet_atomic [where s = drained and sender = operator and gid = 3 and actual = 600000
      and now = 1700000300] t h
  have 1: "settleBet drained operator 3 600000 = Inl PayoutFailed" by simp
  with settleBet_atomic [where s = drained and sender = operator and gid = 3 and actual = 600000
      and now = 1700000300]
  have 2: "call drained operator 1700000300 (SettleBet 3 600000) = drained" by simp
  from settleBet_atomic [where s = after3 and sender = operator and gid = 3 and actual = 0
      and now = 1700000300]
  have 3: "isl (settleBet after3 operator 3 0)" by simp
  then obtain e where "settleBet after3 operator 3 0 = Inl e"
    by (cases "settleBet after3 operator 3 0") simp_all
  with settleBet_atomic [where s = after3 and sender = operator and gid = 3 and actual = 0
      and now = 1700000300]
  have 4: "call after3 operator 1700000300 (SettleBet 3 0) = after3" by simp
  from t 1 2 3 4 show ?thesis by simp
qed

text \<open>
  Claim C6. \<open>makeGuess\<close> on an existing game by anyone but the game's player fails with
  \<open>NotYourGame\<close> and the storage, so also the game's guess and stage, is unchanged.
\<close>

theorem makeGuess_only_owner:
  assumes "validGameId s gid" "sender \<noteq> player (gameById s gid)"
  shows "makeGuess s sender gid isHigher = Inl NotYourGame \<and>
         call s sender now (MakeGuess gid isHigher) = s \<and>
         step s (Transaction sender now (MakeGuess gid isHigher)) = s"
  using assms by (auto simp: makeGuess_def call_def)

theorem makeGuess_only_owner_witness:
  "validGameId after2 3 \<and> bob \<noteq> player (gameById after2 3) \<and>
   stage (gameById after2 3) = Initialized \<and>
   makeGuess after2 bob 3 True = Inl NotYourGame \<and>
   call after2 bob 1700000200 (MakeGuess 3 True) = after2"
proof -
  have v: "validGameId after2 3" by (simp add: validGameId_def after2_facts)
  have b: "bob \<noteq> player (gameById after2 3)" "stage (gameById after2 3) = Initialized"
    by (simp_all add: after2_facts listed3_def newListing_def who)
  from makeGuess_only_owner [OF v b(1), where isHigher = True and now = 1700000200] v b show ?thesis by simp
qed

text \<open>
  Claim C7. \<open>initializeGame\<close> succeeds exactly when the caller is the contract's owner (the
  operator role), the id names an existing game, that game's stage is \<open>NotStarted\<close>, the
  listing id is not zero and the displayed price is positive. On success the game's record
  is the old one with the listing id and the displayed price set and the stage
  \<open>Initialized\<close>, and after any further sequence of events the displayed price is still
  that value, is not zero, and the stage is never \<open>NotStarted\<close> again (so no later
  \<open>initializeGame\<close> can set it). On failure the storage is unchanged. In every reachable
  storage a game that has left \<open>NotStarted\<close> has a displayed price other than 0.
\<close>

theorem initializeGame_exactly_when:
  "((\<exists>s'. initializeGame s sender gid lid shownPrice = Inr s') \<longleftrightarrow>
      sender = owner s \<and> validGameId s gid \<and> stage (gameById s gid) = NotStarted \<and>
      lid \<noteq> 0 \<and> shownPrice > 0) \<and>
   (\<forall>s'. initializeGame s sender gid lid shownPrice = Inr s' \<longrightarrow>
      call s sender now (InitializeGame gid lid shownPrice) = s' \<and>
      gameById s' gid =
        (gameById s gid)\<lparr>listingId := lid, displayedPrice := shownPrice, stage := Initialized\<rparr> \<and>
      (\<forall>evs. displayedPrice (gameById (steps s' evs) gid) = shownPrice \<and>
             displayedPrice (gameById (steps s' evs) gid) \<noteq> 0 \<and>
             stage (gameById (steps s' evs) gid) \<noteq> NotStarted)) \<and>
   (\<forall>e. initializeGame s sender gid lid shownPrice = Inl e \<longrightarrow>
      call s sender now (InitializeGame gid lid shownPrice) = s) \<and>
   (\<forall>t k. reachable t \<and> stage (gameById t k) \<noteq> NotStarted \<longrightarrow>
      displayedPrice (gameById t k) \<noteq> 0)"
proof -
  have 4: "\<forall>t k. reachable t \<and> stage (gameById t k) \<noteq> NotStarted \<longrightarrow>
      displayedPrice (gameById t k) \<noteq> 0"
    using reachable_price by blast
  have 1: "(\<exists>s'. initializeGame s sender gid lid shownPrice = Inr s') \<longleftrightarrow>
      sender = owner s \<and> validGameId s gid \<and> stage (gameById s gid) = NotStarted \<and>
      lid \<noteq> 0 \<and> shownPrice > 0"
    by (auto simp: initializeGame_Inr)
  have 2: "call s sender now (InitializeGame gid lid shownPrice) = s' \<and>
      gameById s' gid =
        (gameById s gid)\<lparr>listingId := lid, displayedPrice := shownPrice, stage := Initialized\<rparr> \<and>
      (\<forall>evs. displayedPrice (gameById (steps s' evs) gid) = shownPrice \<and>
             displayedPrice (gameById (steps s' evs) gid) \<noteq> 0 \<and>
             stage (gameById (steps s' evs) gid) \<noteq> NotStarted)"
    if ok: "initializeGame s sender gid lid shownPrice = Inr s'" for s'
  proof -
    from ok have v: "validGameId s' gid" and p: "shownPrice > 0"
      and g: "gameById s' gid =
        (gameById s gid)\<lparr>listingId := lid, displayedPrice := shownPrice, stage := Initialized\<rparr>"
      by (auto simp: initializeGame_Inr validGameId_def)
    from g have st: "stage (gameById s' gid) \<noteq> NotStarted" by simp
    show ?thesis
      using ok steps_price [OF v st] g p by (simp add: call_def)
  qed
  have 3: "initializeGame s sender gid lid shownPrice = Inl e \<Longrightarrow>
      call s sender now (InitializeGame gid lid shownPrice) = s" for e
    by (simp add: call_def)
  from 1 2 3 4 show ?thesis by blast
qed

theorem initializeGame_exactly_when_witness:
  "initializeGame after1 operator 3 0x2A 500000 = Inr after2 \<and>
   operator = owner after1 \<and> validGameId after1 3 \<and> stage (gameById after1 3) = NotStarted \<and>
   displayedPrice (gameById after2 3) = 500000 \<and> stage (gameById after2 3) = Initialized \<and>
   displayedPrice (gameById (steps after2 [Transaction alice 1700000200 (MakeGuess 3 True),
       Transaction operator 1700000300 (SettleBet 3 600000)]) 3) = 500000"
proof -
  have i: "initializeGame after1 operator 3 0x2A 500000 = Inr after2" by (simp add: init_after1 after2_eq)
  from initializeGame_exactly_when [where s = after1 and sender = operator and gid = 3
      and lid = "0x2A" and shownPrice = 500000 and now = 1700000100] i
  have 1: "operator = owner after1 \<and> validGameId after1 3 \<and> stage (gameById after1 3) = NotStarted"
    and 2: "gameById after2 3 =
        (gameById after1 3)\<lparr>listingId := 0x2A, displayedPrice := 500000, stage := Initialized\<rparr>"
    and 3: "\<forall>evs. displayedPrice (gameById (steps after2 evs) 3) = 500000"
    by blast+
  from i 1 2 3 show ?thesis by (simp del: steps_Cons steps_Nil)
qed






text \<open>
  Claim C10. In every reachable storage \<open>getTotalGames\<close> is \<open>nextGameId - 1\<close>; the ids of
  the stored games are \<open>1, \<dots>, nextGameId - 1\<close> without a gap, each id in that range keys a
  game whose \<open>gameId\<close> field is that id, and a key outside it reads as the zero record. An
  event other than a \<open>startGame\<close> transaction changes neither \<open>nextGameId\<close> nor the number
  of games; a \<open>startGame\<close> transaction leaves both as they are or adds \<open>BATCH_SIZE\<close> to
  both.
\<close>

theorem total_games_matches_counter:
  assumes "reachable s"
  shows "getTotalGames s = nextGameId s - 1 \<and> 1 \<le> nextGameId s \<and>
         map gameId (allGames s) = [1..<nextGameId s] \<and>
         (\<forall>gid. validGameId s gid \<longrightarrow> gameId (gameById s gid) = gid) \<and>
         (\<forall>gid. \<not> validGameId s gid \<longrightarrow> gameById s gid = zeroListing) \<and>
         (\<forall>ev. (\<forall>sender now. ev \<noteq> Transaction sender now StartGame) \<longrightarrow>
            nextGameId (step s ev) = nextGameId s \<and> getTotalGames (step s ev) = getTotalGames s) \<and>
         (\<forall>sender now.
            (nextGameId (call s sender now StartGame) = nextGameId s \<and>
             getTotalGames (call s sender now StartGame) = getTotalGames s) \<or>
            (nextGameId (call s sender now StartGame) = nextGameId s + BATCH_SIZE \<and>
             getTotalGames (call s sender now StartGame) = getTotalGames s + BATCH_SIZE))"
proof -
  from assms have c: "consistent s" and u: "unused s" by (simp_all add: reachable_inv)
  have 1: "getTotalGames s = nextGameId s - 1" "1 \<le> nextGameId s"
    using c by (simp_all add: consistent_def getTotalGames_def)
  have 2: "map gameId (allGames s) = [1..<nextGameId s]" by (rule consistent_ids [OF c])
  have 3: "\<forall>gid. validGameId s gid \<longrightarrow> gameId (gameById s gid) = gid"
    using c by (simp add: consistent_def)
  have 4: "\<forall>gid. \<not> validGameId s gid \<longrightarrow> gameById s gid = zeroListing"
    using u by (simp add: unused_def)
  have 5: "nextGameId (step s ev) = nextGameId s \<and> getTotalGames (step s ev) = getTotalGames s"
    if "\<forall>sender now. ev \<noteq> Transaction sender now StartGame" for ev
    using that step_nextGameId [of s ev] step_allGames_length [of s ev]
    by (auto simp: getTotalGames_def)
  have 6: "(nextGameId (call s sender now StartGame) = nextGameId s \<and>
             getTotalGames (call s sender now StartGame) = getTotalGames s) \<or>
            (nextGameId (call s sender now StartGame) = nextGameId s + BATCH_SIZE \<and>
             getTotalGames (call s sender now StartGame) = getTotalGames s + BATCH_SIZE)" for sender now
  proof -
    let ?s' = "step s (Transaction sender now StartGame)"
    have "consistent ?s'" by (rule consistent_step [OF c])
    then have "getTotalGames ?s' = nextGameId ?s' - 1" "1 \<le> nextGameId ?s'"
      by (simp_all add: consistent_def getTotalGames_def)
    with 1 step_nextGameId [of s "Transaction sender now StartGame"] show ?thesis
      by auto
  qed
  from 1 2 3 4 5 6 show ?thesis by blast
qed

theorem total_games_matches_counter_witness:
  "reachable after4 \<and> nextGameId after4 = 11 \<and> getTotalGames after4 = 10 \<and>
   map gameId (allGames after4) = [1..<11]"
proof -
  have r: "reachable after4" by (rule reachable_scenario)
  have n: "nextGameId after4 = 11" by (simp add: after4_facts)
  from total_games_matches_counter [OF r] r n show ?thesis by (simp del: upt_Suc)
qed

end
